theory Spec2Isabelle
  imports Complex_Main
begin

section \<open>The snake game of \<open>HomePage\<close>: data model\<close>

text \<open>
  The component keeps its game in React state cells (\<open>snake\<close>, \<open>direction\<close>, \<open>food\<close>,
  \<open>speed\<close>, \<open>score\<close>, \<open>bestScore\<close>, \<open>status\<close>) and one mutable ref
  (\<open>pendingDirection\<close>). Every callback runs to completion before the next one starts and
  is re-created whenever a state cell it reads has changed, so each callback is modelled as
  a function from the state it sees to the state it leaves.

  The fields \<open>x\<close> and \<open>y\<close> of a \<open>Point\<close> are \<open>px\<close> and \<open>py\<close> here.
  Coordinates, score and speed only ever hold small integers, so they are \<open>int\<close>. The best
  score is the one cell that can receive an arbitrary JavaScript number (it is loaded with
  \<open>Number(...)\<close> from local storage), so it is a \<open>jsnum\<close>.
\<close>

record point =
  px :: int
  py :: int

datatype status = Ready | Running | Over

datatype jsnum = NaN | NegInf | Num rat | PosInf

datatype error = TypeError

record game =
  snake :: "point list"
  direction :: point
  food :: point
  speed :: int
  score :: int
  bestScore :: jsnum
  status :: status
  pendingDirection :: "point option"

definition BOARD_SIZE :: int where
  "BOARD_SIZE = 20"

definition INITIAL_SPEED :: int where
  "INITIAL_SPEED = 160"

definition ArrowUp :: point where "ArrowUp = \<lparr>px = 0, py = -1\<rparr>"
definition ArrowDown :: point where "ArrowDown = \<lparr>px = 0, py = 1\<rparr>"
definition ArrowLeft :: point where "ArrowLeft = \<lparr>px = -1, py = 0\<rparr>"
definition ArrowRight :: point where "ArrowRight = \<lparr>px = 1, py = 0\<rparr>"

definition DIRECTIONS :: "string \<rightharpoonup> point" where
  "DIRECTIONS = map_of
     [(''ArrowUp'', ArrowUp), (''ArrowDown'', ArrowDown),
      (''ArrowLeft'', ArrowLeft), (''ArrowRight'', ArrowRight)]"

definition isOpposite :: "point \<Rightarrow> point \<Rightarrow> bool" where
  "isOpposite current next \<longleftrightarrow> px current + px next = 0 \<and> py current + py next = 0"

subsection \<open>Food placement\<close>

text \<open>
  \<open>spawnFood\<close> scans the board row by row (\<open>y\<close> outer, \<open>x\<close> inner), keeps the cells that
  no element of \<open>occupied\<close> matches, and picks
  \<open>freeCells[Math.floor(Math.random() * freeCells.length)]\<close>. The value of
  \<open>Math.random()\<close> is the parameter \<open>rnd\<close>; its contract is \<open>0 \<le> rnd < 1\<close>. The
  product is taken exactly: all that matters is the index it selects, and under the contract
  that is an index below the number of free cells.
\<close>

definition boardCells :: "point list" where
  "boardCells =
     concat (map (\<lambda>y. map (\<lambda>x. \<lparr>px = x, py = y\<rparr>) [0..BOARD_SIZE - 1]) [0..BOARD_SIZE - 1])"

definition isOccupied :: "point list \<Rightarrow> point \<Rightarrow> bool" where
  "isOccupied occupied c \<longleftrightarrow> list_ex (\<lambda>cell. px cell = px c \<and> py cell = py c) occupied"

definition freeCells :: "point list \<Rightarrow> point list" where
  "freeCells occupied = filter (\<lambda>c. \<not> isOccupied occupied c) boardCells"

definition spawnFood :: "rat \<Rightarrow> point list \<Rightarrow> point" where
  "spawnFood rnd occupied =
     (let fc = freeCells occupied in
      if length fc = 0 then \<lparr>px = 0, py = 0\<rparr>
      else fc ! nat \<lfloor>rnd * of_nat (length fc)\<rfloor>)"

subsection \<open>Reset, tick and the interval timer\<close>

definition initialSnake :: "point list" where
  "initialSnake = [\<lparr>px = 10, py = 10\<rparr>, \<lparr>px = 9, py = 10\<rparr>, \<lparr>px = 8, py = 10\<rparr>]"

definition resetGame :: "rat \<Rightarrow> game \<Rightarrow> game" where
  "resetGame rnd s =
     s\<lparr>snake := initialSnake,
       direction := ArrowRight,
       food := spawnFood rnd initialSnake,
       speed := INITIAL_SPEED,
       score := 0,
       status := Running,
       pendingDirection := None\<rparr>"

definition activeDirection :: "game \<Rightarrow> point" where
  "activeDirection s = (case pendingDirection s of None \<Rightarrow> direction s | Some d \<Rightarrow> d)"

definition advance :: "point \<Rightarrow> point \<Rightarrow> point" where
  "advance head d = \<lparr>px = px head + px d, py = py head + py d\<rparr>"

definition hitWall :: "point \<Rightarrow> bool" where
  "hitWall nextHead \<longleftrightarrow>
     px nextHead < 0 \<or> px nextHead \<ge> BOARD_SIZE \<or> py nextHead < 0 \<or> py nextHead \<ge> BOARD_SIZE"

definition hitSelf :: "point list \<Rightarrow> point \<Rightarrow> bool" where
  "hitSelf currentSnake nextHead \<longleftrightarrow>
     list_ex (\<lambda>segment. px segment = px nextHead \<and> py segment = py nextHead) currentSnake"

text \<open>
  \<open>Math.max\<close> on the numbers the best score can hold: \<open>NaN\<close> is contagious, otherwise the
  larger argument is returned.
\<close>

fun Math_max :: "jsnum \<Rightarrow> jsnum \<Rightarrow> jsnum" where
  "Math_max NaN _ = NaN"
| "Math_max _ NaN = NaN"
| "Math_max PosInf _ = PosInf"
| "Math_max _ PosInf = PosInf"
| "Math_max NegInf b = b"
| "Math_max a NegInf = a"
| "Math_max (Num a) (Num b) = Num (max a b)"

text \<open>
  The body of \<open>tick\<close>. \<open>currentSnake[0]\<close> of an empty array is \<open>undefined\<close>, and reading
  \<open>head.x\<close> then throws; that is the \<open>Inl\<close> branch. The pending direction is consumed
  before the collision test, so it is cleared on every path. \<open>setDirection\<close> is not
  called here: the \<open>direction\<close> cell keeps its value.
\<close>

definition tick :: "rat \<Rightarrow> game \<Rightarrow> error + game" where
  "tick rnd s =
     (case snake s of
        [] \<Rightarrow> Inl TypeError
      | head # _ \<Rightarrow>
          let currentSnake = snake s;
              nextHead = advance head (activeDirection s);
              s1 = s\<lparr>pendingDirection := None\<rparr>
          in if hitWall nextHead \<or> hitSelf currentSnake nextHead
             then Inr (s1\<lparr>status := Over,
                          bestScore := Math_max (bestScore s) (Num (of_int (score s)))\<rparr>)
             else
               let hasEaten = (px nextHead = px (food s) \<and> py nextHead = py (food s));
                   newSnake = nextHead # currentSnake
               in if \<not> hasEaten
                  then Inr (s1\<lparr>snake := butlast newSnake\<rparr>)
                  else Inr (s1\<lparr>snake := newSnake,
                               food := spawnFood rnd newSnake,
                               score := score s + 1,
                               speed := max 60 (speed s - 5)\<rparr>))"

text \<open>
  The interval effect installs the timer only while \<open>status\<close> is \<open>"running"\<close>; in any other
  status no tick happens.
\<close>

definition timer :: "rat \<Rightarrow> game \<Rightarrow> error + game" where
  "timer rnd s = (if status s \<noteq> Running then Inr s else tick rnd s)"

subsection \<open>Keyboard input\<close>

text \<open>
  \<open>handleKeyDown\<close> reads \<open>status\<close> and \<open>direction\<close> from the render that installed it:
  after \<open>setStatus("running")\<close> the test \<open>status !== "running"\<close> still sees the old
  status, so it is evaluated on the incoming state \<open>s\<close>.
\<close>

definition handleKeyDown :: "string \<Rightarrow> rat \<Rightarrow> game \<Rightarrow> game" where
  "handleKeyDown key rnd s =
     (if key = '' '' \<and> status s \<noteq> Running then resetGame rnd s
      else case DIRECTIONS key of
        None \<Rightarrow> s
      | Some next \<Rightarrow>
          let s1 = (if status s = Ready then s\<lparr>status := Running\<rparr> else s)
          in if status s \<noteq> Running then s1
             else
               let currentDirection = activeDirection s
               in if isOpposite currentDirection next then s1
                  else s1\<lparr>pendingDirection := Some next\<rparr>)"

subsection \<open>Loading the stored best score\<close>

text \<open>
  \<open>Number(storedBest)\<close> applies the language's string-to-number conversion. It is a
  built-in of the platform, modelled here after the \<open>StringNumericLiteral\<close> grammar:
  surrounding white space is dropped; the empty string is \<open>0\<close>; \<open>0x\<close>, \<open>0o\<close> and \<open>0b\<close>
  introduce unsigned hexadecimal, octal and binary integers; otherwise an optional sign is
  followed by \<open>Infinity\<close> or by a decimal literal with optional fraction and exponent;
  everything else is \<open>NaN\<close>. A \<open>string\<close> is read as a sequence of code units below 256.
  \<open>Num q\<close> stands for the double nearest to \<open>q\<close> (and \<open>-0\<close> is not told apart from \<open>0\<close>);
  magnitudes that round beyond the largest double become infinite.
\<close>

definition isStrWhiteSpaceChar :: "char \<Rightarrow> bool" where
  "isStrWhiteSpaceChar c \<longleftrightarrow> (of_char c :: nat) \<in> {9, 10, 11, 12, 13, 32, 160}"

definition trimString :: "string \<Rightarrow> string" where
  "trimString str = rev (dropWhile isStrWhiteSpaceChar (rev (dropWhile isStrWhiteSpaceChar str)))"

definition digitOf :: "nat \<Rightarrow> char \<Rightarrow> nat option" where
  "digitOf base c =
     (let n = (of_char c :: nat);
          v = (if 48 \<le> n \<and> n \<le> 57 then Some (n - 48)
               else if 97 \<le> n \<and> n \<le> 102 then Some (n - 87)
               else if 65 \<le> n \<and> n \<le> 70 then Some (n - 55)
               else None)
      in case v of None \<Rightarrow> None | Some d \<Rightarrow> if d < base then Some d else None)"

definition isDigitOf :: "nat \<Rightarrow> char \<Rightarrow> bool" where
  "isDigitOf base c \<longleftrightarrow> digitOf base c \<noteq> None"

definition digitsValue :: "nat \<Rightarrow> string \<Rightarrow> nat" where
  "digitsValue base ds = foldl (\<lambda>acc c. acc * base + the (digitOf base c)) 0 ds"

definition roundOverflow :: "rat \<Rightarrow> jsnum" where
  "roundOverflow q =
     (if q \<ge> 2 ^ 1024 - 2 ^ 970 then PosInf
      else if q \<le> - (2 ^ 1024 - 2 ^ 970) then NegInf
      else Num q)"

definition parseNonDecimal :: "nat \<Rightarrow> string \<Rightarrow> jsnum" where
  "parseNonDecimal base ds =
     (if ds \<noteq> [] \<and> list_all (isDigitOf base) ds
      then roundOverflow (of_nat (digitsValue base ds))
      else NaN)"

definition parseExponent :: "string \<Rightarrow> int option" where
  "parseExponent t =
     (case t of
        [] \<Rightarrow> Some 0
      | c # r \<Rightarrow>
          if c = CHR ''e'' \<or> c = CHR ''E'' then
            (let neg = (r \<noteq> [] \<and> hd r = CHR ''-'');
                 ds = (if r \<noteq> [] \<and> (hd r = CHR ''-'' \<or> hd r = CHR ''+'') then tl r else r)
             in if ds \<noteq> [] \<and> list_all (isDigitOf 10) ds
                then Some (if neg then - int (digitsValue 10 ds) else int (digitsValue 10 ds))
                else None)
          else None)"

definition parseUnsignedDecimal :: "string \<Rightarrow> rat option" where
  "parseUnsignedDecimal t =
     (let ip = takeWhile (isDigitOf 10) t;
          r1 = dropWhile (isDigitOf 10) t;
          hasDot = (r1 \<noteq> [] \<and> hd r1 = CHR ''.'');
          fp = (if hasDot then takeWhile (isDigitOf 10) (tl r1) else []);
          r2 = (if hasDot then dropWhile (isDigitOf 10) (tl r1) else r1)
      in if ip = [] \<and> fp = [] then None
         else case parseExponent r2 of
                None \<Rightarrow> None
              | Some e \<Rightarrow>
                  Some (of_nat (digitsValue 10 (ip @ fp)) * 10 powi (e - int (length fp))))"

definition parseSignedDecimal :: "string \<Rightarrow> jsnum" where
  "parseSignedDecimal t =
     (let neg = (t \<noteq> [] \<and> hd t = CHR ''-'');
          body = (if t \<noteq> [] \<and> (hd t = CHR ''-'' \<or> hd t = CHR ''+'') then tl t else t)
      in if body = ''Infinity'' then (if neg then NegInf else PosInf)
         else case parseUnsignedDecimal body of
                None \<Rightarrow> NaN
              | Some q \<Rightarrow> roundOverflow (if neg then - q else q))"

definition Number_js :: "string \<Rightarrow> jsnum" where
  "Number_js str =
     (let t = trimString str
      in if t = [] then Num 0
         else if take 2 t = ''0x'' \<or> take 2 t = ''0X'' then parseNonDecimal 16 (drop 2 t)
         else if take 2 t = ''0o'' \<or> take 2 t = ''0O'' then parseNonDecimal 8 (drop 2 t)
         else if take 2 t = ''0b'' \<or> take 2 t = ''0B'' then parseNonDecimal 2 (drop 2 t)
         else parseSignedDecimal t)"

text \<open>
  The mount-time effect: \<open>getItem\<close> yields \<open>null\<close> (here \<open>None\<close>) or a string, and
  \<open>if (storedBest)\<close> lets every non-empty string through to \<open>setBestScore(Number(storedBest))\<close>.
\<close>

definition loadBestScore :: "string option \<Rightarrow> game \<Rightarrow> game" where
  "loadBestScore storedBest s =
     (case storedBest of
        None \<Rightarrow> s
      | Some str \<Rightarrow> if str = [] then s else s\<lparr>bestScore := Number_js str\<rparr>)"

text \<open>The initial values of the \<open>useState\<close> cells, and the state after the mount effect.\<close>

definition initialState :: "rat \<Rightarrow> game" where
  "initialState rnd =
     \<lparr>snake = initialSnake,
      direction = ArrowRight,
      food = spawnFood rnd initialSnake,
      speed = INITIAL_SPEED,
      score = 0,
      bestScore = Num 0,
      status = Ready,
      pendingDirection = None\<rparr>"

definition mount :: "rat \<Rightarrow> string option \<Rightarrow> game" where
  "mount rnd storedBest = loadBestScore storedBest (initialState rnd)"

subsection \<open>Reachable states\<close>

text \<open>
  A game state is reachable when the component can be driven into it: it is mounted, and
  then receives key presses, timer firings and clicks on the restart button (which is
  rendered only when the game is over). Every event brings its own value of
  \<open>Math.random()\<close>, used if the event places food.
\<close>

definition unitRandom :: "rat \<Rightarrow> bool" where
  "unitRandom rnd \<longleftrightarrow> 0 \<le> rnd \<and> rnd < 1"

inductive reachable :: "game \<Rightarrow> bool" where
  mounted: "unitRandom rnd \<Longrightarrow> reachable (mount rnd storedBest)"
| keyDown: "reachable s \<Longrightarrow> unitRandom rnd \<Longrightarrow> reachable (handleKeyDown key rnd s)"
| interval: "reachable s \<Longrightarrow> unitRandom rnd \<Longrightarrow> timer rnd s = Inr s' \<Longrightarrow> reachable s'"
| restart: "reachable s \<Longrightarrow> status s = Over \<Longrightarrow> unitRandom rnd \<Longrightarrow> reachable (resetGame rnd s)"

subsection \<open>Event traces\<close>

text \<open>
  The events the component reacts to, each with the value \<open>Math.random()\<close> would return
  during it, and the effect of a list of them in order. A click on the restart button is
  possible only while the button is rendered, that is when the game is over.
\<close>

datatype event = KeyDown string rat | Interval rat | ClickRestart rat

fun fire :: "event \<Rightarrow> game \<Rightarrow> error + game" where
  "fire (KeyDown key rnd) s = Inr (handleKeyDown key rnd s)"
| "fire (Interval rnd) s = timer rnd s"
| "fire (ClickRestart rnd) s = (if status s = Over then Inr (resetGame rnd s) else Inr s)"

fun run :: "event list \<Rightarrow> game \<Rightarrow> error + game" where
  "run [] s = Inr s"
| "run (e # es) s = (case fire e s of Inl err \<Rightarrow> Inl err | Inr s' \<Rightarrow> run es s')"

subsection \<open>Invariant of the game state\<close>

text \<open>
  The board is full when every board cell is a cell of the snake. The invariant below is
  what every event preserves: the segments are pairwise different cells of the board, there
  are three more of them than the score, and the food is off the snake unless the snake
  fills the board, where \<open>spawnFood\<close> has fallen back to \<open>(0, 0)\<close>.
\<close>

definition boardFull :: "point list \<Rightarrow> bool" where
  "boardFull occupied \<longleftrightarrow> set boardCells \<subseteq> set occupied"

definition gameInv :: "game \<Rightarrow> bool" where
  "gameInv s \<longleftrightarrow>
     distinct (snake s) \<and>
     set (snake s) \<subseteq> set boardCells \<and>
     0 \<le> score s \<and>
     int (length (snake s)) = 3 + score s \<and>
     (food s \<notin> set (snake s) \<or> (boardFull (snake s) \<and> food s = \<lparr>px = 0, py = 0\<rparr>))"

subsection \<open>A game that fills the board\<close>

text \<open>
  A path through all 400 cells that starts with the three cells of the initial snake, tail
  first: along row 10 to the right wall, back and forth through rows 11 to 19 (columns 1 to
  19), up column 0, along the left part of row 10, back and forth through rows 9 to 0
  (columns 0 to 7), and up and down through the columns 8 to 19 of rows 0 to 9.
  \<open>pathState k\<close> is the running game whose snake lies on the first \<open>k + 3\<close> cells of the
  path after eating \<open>k\<close> times, with the food on the next cell of the path.
\<close>

definition row :: "int \<Rightarrow> int list \<Rightarrow> point list" where
  "row y xs = map (\<lambda>x. \<lparr>px = x, py = y\<rparr>) xs"

definition col :: "int \<Rightarrow> int list \<Rightarrow> point list" where
  "col x ys = map (\<lambda>y. \<lparr>px = x, py = y\<rparr>) ys"

definition fillingPath :: "point list" where
  "fillingPath =
     row 10 [8..19]
     @ concat (map (\<lambda>k. row (11 + 2 * k) (rev [1..19]) @ row (12 + 2 * k) [1..19]) [0..3])
     @ row 19 (rev [1..19])
     @ col 0 (rev [11..19])
     @ row 10 [0..7]
     @ row 9 (rev [0..7])
     @ concat (map (\<lambda>k. row (8 - 2 * k) [0..7] @ row (7 - 2 * k) (rev [0..7])) [0..3])
     @ row 0 [0..7]
     @ concat (map (\<lambda>k. col (8 + 2 * k) [0..9] @ col (9 + 2 * k) (rev [0..9])) [0..5])"

definition pathState :: "nat \<Rightarrow> game" where
  "pathState k =
     \<lparr>snake = rev (take (k + 3) fillingPath),
      direction = ArrowRight,
      food = (if k + 3 < length fillingPath then fillingPath ! (k + 3) else \<lparr>px = 0, py = 0\<rparr>),
      speed = max 60 (160 - 5 * int k),
      score = int k,
      bestScore = Num 0,
      status = Running,
      pendingDirection = None\<rparr>"

text \<open>
  The position of a cell on the path, region by region; it is used to see that no cell occurs
  twice.
\<close>

definition pathIndex :: "point \<Rightarrow> int" where
  "pathIndex c =
     (let x = px c; y = py c in
      if y = 10 \<and> x \<ge> 8 then x - 8
      else if y \<ge> 11 \<and> x \<ge> 1 then
        (if even (y - 11) then 12 + 19 * (y - 11) + (19 - x) else 12 + 19 * (y - 11) + (x - 1))
      else if y \<ge> 11 then 183 + (19 - y)
      else if y = 10 then 192 + x
      else if y = 9 \<and> x \<le> 7 then 200 + (7 - x)
      else if x \<le> 7 then
        (if even (8 - y) then 208 + 8 * (8 - y) + x else 208 + 8 * (8 - y) + (7 - x))
      else
        (if even (x - 8) then 280 + 10 * (x - 8) + y else 280 + 10 * (x - 8) + (9 - y)))"

fun stepsAdjacent :: "point list \<Rightarrow> bool" where
  "stepsAdjacent (a # b # cs) \<longleftrightarrow>
     b \<in> set (map (advance a) [ArrowUp, ArrowDown, ArrowLeft, ArrowRight]) \<and> stepsAdjacent (b # cs)"
| "stepsAdjacent _ \<longleftrightarrow> True"

section \<open>Properties\<close>

subsection \<open>Auxiliary facts about cells, food placement and one tick\<close>

lemma point_eq_iff: "(a = b) \<longleftrightarrow> (px a = px b \<and> py a = py b)" for a b :: point
  by (cases a, cases b) simp

lemma hitSelf_iff: "hitSelf currentSnake nextHead \<longleftrightarrow> nextHead \<in> set currentSnake"
proof -
  have "(px segment = px nextHead \<and> py segment = py nextHead) \<longleftrightarrow> segment = nextHead"
    for segment
    by (simp add: point_eq_iff)
  then show ?thesis
    by (auto simp: hitSelf_def list_ex_iff)
qed

lemma isOccupied_iff: "isOccupied occupied c \<longleftrightarrow> c \<in> set occupied"
proof -
  have "(px cell = px c \<and> py cell = py c) \<longleftrightarrow> cell = c" for cell
    by (simp add: point_eq_iff)
  then show ?thesis
    by (auto simp: isOccupied_def list_ex_iff)
qed

lemma set_boardCells:
  "set boardCells = {c. 0 \<le> px c \<and> px c < BOARD_SIZE \<and> 0 \<le> py c \<and> py c < BOARD_SIZE}"
proof -
  have "c \<in> set boardCells \<longleftrightarrow> 0 \<le> px c \<and> px c < BOARD_SIZE \<and> 0 \<le> py c \<and> py c < BOARD_SIZE"
    for c
  proof
    assume "c \<in> set boardCells"
    then show "0 \<le> px c \<and> px c < BOARD_SIZE \<and> 0 \<le> py c \<and> py c < BOARD_SIZE"
      by (auto simp: boardCells_def BOARD_SIZE_def)
  next
    assume a: "0 \<le> px c \<and> px c < BOARD_SIZE \<and> 0 \<le> py c \<and> py c < BOARD_SIZE"
    have "c = \<lparr>px = px c, py = py c\<rparr>" by simp
    with a show "c \<in> set boardCells"
      unfolding boardCells_def BOARD_SIZE_def
      by (auto intro!: bexI[of _ "py c"] image_eqI[of _ _ "px c"])
  qed
  then show ?thesis by blast
qed

lemma hitWall_iff: "hitWall c \<longleftrightarrow> c \<notin> set boardCells"
  by (auto simp: hitWall_def set_boardCells)

lemma set_freeCells: "set (freeCells occupied) = set boardCells - set occupied"
  by (auto simp: freeCells_def isOccupied_iff)

lemma random_index_less:
  assumes "unitRandom rnd" "0 < n"
  shows "nat \<lfloor>rnd * of_nat n\<rfloor> < n"
proof -
  have "rnd * of_nat n < of_nat n"
    using assms by (simp add: unitRandom_def)
  then have "\<lfloor>rnd * of_nat n\<rfloor> < int n"
    by (simp add: floor_less_iff)
  then show ?thesis using assms by linarith
qed

lemma spawnFood_free:
  assumes "unitRandom rnd" "freeCells occupied \<noteq> []"
  shows "spawnFood rnd occupied \<in> set (freeCells occupied)"
  using assms random_index_less[of rnd "length (freeCells occupied)"]
  by (simp add: spawnFood_def Let_def)

lemma spawnFood_fallback:
  "freeCells occupied = [] \<Longrightarrow> spawnFood rnd occupied = \<lparr>px = 0, py = 0\<rparr>"
  by (simp add: spawnFood_def)

lemma tick_collision:
  assumes "snake s = head # rest"
    and "hitWall (advance head (activeDirection s)) \<or> advance head (activeDirection s) \<in> set (snake s)"
  shows "tick rnd s = Inr (s\<lparr>pendingDirection := None, status := Over,
            bestScore := Math_max (bestScore s) (Num (of_int (score s)))\<rparr>)"
  using assms by (auto simp: tick_def Let_def hitSelf_iff)

lemma tick_eat:
  assumes "snake s = head # rest"
    and "\<not> hitWall (advance head (activeDirection s))"
    and "advance head (activeDirection s) \<notin> set (snake s)"
    and "advance head (activeDirection s) = food s"
  shows "tick rnd s = Inr (s\<lparr>pendingDirection := None,
            snake := food s # snake s,
            food := spawnFood rnd (food s # snake s),
            score := score s + 1,
            speed := max 60 (speed s - 5)\<rparr>)"
  using assms by (auto simp: tick_def Let_def hitSelf_iff)

lemma tick_move:
  assumes "snake s = head # rest"
    and "\<not> hitWall (advance head (activeDirection s))"
    and "advance head (activeDirection s) \<notin> set (snake s)"
    and "advance head (activeDirection s) \<noteq> food s"
  shows "tick rnd s = Inr (s\<lparr>pendingDirection := None,
            snake := advance head (activeDirection s) # butlast (snake s)\<rparr>)"
  using assms by (auto simp: tick_def Let_def hitSelf_iff point_eq_iff)

subsection \<open>One tick of a running game\<close>

text \<open>
  Claim C3. In a running game, a tick whose next head (the head moved by the effective
  direction) is the cell of any segment of the snake as it is before the move ends the
  game. The cell of the last segment is no exception, although the move would vacate it.
\<close>

theorem C3_self_collision_counts_tail:
  assumes "status s = Running"
    and "snake s = head # rest"
    and "nextHead = advance head (activeDirection s)"
    and "nextHead \<in> set (snake s) \<or> nextHead = last (snake s)"
  shows "case timer rnd s of Inl e \<Rightarrow> False | Inr s' \<Rightarrow> status s' = Over"
proof -
  have "last (snake s) \<in> set (snake s)"
    using assms(2) by (metis last_in_set list.distinct(1))
  with assms(4) have "nextHead \<in> set (snake s)" by auto
  with assms(1-3) show ?thesis
    by (simp add: timer_def tick_collision)
qed

text \<open>
  A snake curled into a square whose head is about to enter the cell of its own tail.
\<close>

theorem C3_witness:
  "case timer 0 \<lparr>snake = [\<lparr>px = 5, py = 5\<rparr>, \<lparr>px = 5, py = 6\<rparr>, \<lparr>px = 6, py = 6\<rparr>, \<lparr>px = 6, py = 5\<rparr>],
       direction = ArrowRight, food = \<lparr>px = 0, py = 0\<rparr>, speed = 155, score = 1,
       bestScore = Num 0, status = Running, pendingDirection = None\<rparr>
   of Inl e \<Rightarrow> False | Inr s' \<Rightarrow> status s' = Over"
  by (rule C3_self_collision_counts_tail[where head = "\<lparr>px = 5, py = 5\<rparr>"
        and rest = "[\<lparr>px = 5, py = 6\<rparr>, \<lparr>px = 6, py = 6\<rparr>, \<lparr>px = 6, py = 5\<rparr>]"
        and nextHead = "\<lparr>px = 6, py = 5\<rparr>"])
     (simp_all add: advance_def activeDirection_def ArrowRight_def)

text \<open>
  Claim C4. In a running game, if the next head is off the board on either axis or is a
  cell of the snake, the tick returns with status \<open>Over\<close>, the best score is
  \<open>Math.max\<close> of the old best score and the score (the larger of the two whenever the
  old best score is a number), and the snake is what it was before the tick.
\<close>

theorem C4_collision_ends_game:
  assumes "status s = Running"
    and "snake s = head # rest"
    and "nextHead = advance head (activeDirection s)"
    and "(px nextHead < 0 \<or> px nextHead \<ge> 20 \<or> py nextHead < 0 \<or> py nextHead \<ge> 20)
         \<or> nextHead \<in> set (snake s)"
  shows "case timer rnd s of
           Inl e \<Rightarrow> False
         | Inr s' \<Rightarrow>
             status s' = Over \<and>
             bestScore s' = Math_max (bestScore s) (Num (of_int (score s))) \<and>
             (\<forall>b. bestScore s = Num b \<longrightarrow> bestScore s' = Num (max b (of_int (score s)))) \<and>
             snake s' = snake s"
proof -
  have "hitWall nextHead \<or> nextHead \<in> set (snake s)"
    using assms(4) by (auto simp: hitWall_def BOARD_SIZE_def)
  with assms(1-3) show ?thesis
    by (simp add: timer_def tick_collision)
qed

text \<open>
  The head at \<open>(19, 5)\<close> moving right would reach \<open>(20, 5)\<close>; the head at \<open>(0, 5)\<close>
  with a buffered left turn would reach \<open>(-1, 5)\<close>.
\<close>

theorem C4_witness:
  "(case timer 0 \<lparr>snake = [\<lparr>px = 19, py = 5\<rparr>, \<lparr>px = 18, py = 5\<rparr>, \<lparr>px = 17, py = 5\<rparr>],
       direction = ArrowRight, food = \<lparr>px = 0, py = 0\<rparr>, speed = 160, score = 0,
       bestScore = Num 4, status = Running, pendingDirection = None\<rparr>
    of Inl e \<Rightarrow> False
     | Inr s' \<Rightarrow> status s' = Over \<and> bestScore s' = Num 4 \<and>
        snake s' = [\<lparr>px = 19, py = 5\<rparr>, \<lparr>px = 18, py = 5\<rparr>, \<lparr>px = 17, py = 5\<rparr>]) \<and>
   (case timer 0 \<lparr>snake = [\<lparr>px = 0, py = 5\<rparr>, \<lparr>px = 0, py = 6\<rparr>, \<lparr>px = 0, py = 7\<rparr>],
       direction = ArrowRight, food = \<lparr>px = 9, py = 9\<rparr>, speed = 150, score = 2,
       bestScore = Num 1, status = Running, pendingDirection = Some ArrowLeft\<rparr>
    of Inl e \<Rightarrow> False
     | Inr s' \<Rightarrow> status s' = Over \<and> bestScore s' = Num 2 \<and>
        snake s' = [\<lparr>px = 0, py = 5\<rparr>, \<lparr>px = 0, py = 6\<rparr>, \<lparr>px = 0, py = 7\<rparr>])"
  using C4_collision_ends_game[where head = "\<lparr>px = 19, py = 5\<rparr>"
        and rest = "[\<lparr>px = 18, py = 5\<rparr>, \<lparr>px = 17, py = 5\<rparr>]"
        and nextHead = "\<lparr>px = 20, py = 5\<rparr>" and rnd = 0
        and s = "\<lparr>snake = [\<lparr>px = 19, py = 5\<rparr>, \<lparr>px = 18, py = 5\<rparr>, \<lparr>px = 17, py = 5\<rparr>],
       direction = ArrowRight, food = \<lparr>px = 0, py = 0\<rparr>, speed = 160, score = 0,
       bestScore = Num 4, status = Running, pendingDirection = None\<rparr>"]
    C4_collision_ends_game[where head = "\<lparr>px = 0, py = 5\<rparr>"
        and rest = "[\<lparr>px = 0, py = 6\<rparr>, \<lparr>px = 0, py = 7\<rparr>]"
        and nextHead = "\<lparr>px = -1, py = 5\<rparr>" and rnd = 0
        and s = "\<lparr>snake = [\<lparr>px = 0, py = 5\<rparr>, \<lparr>px = 0, py = 6\<rparr>, \<lparr>px = 0, py = 7\<rparr>],
       direction = ArrowRight, food = \<lparr>px = 9, py = 9\<rparr>, speed = 150, score = 2,
       bestScore = Num 1, status = Running, pendingDirection = Some ArrowLeft\<rparr>"]
  by (simp add: advance_def activeDirection_def ArrowRight_def ArrowLeft_def split: sum.splits)

text \<open>
  Claim C5. In a running game, if the next head is on the board, is not a cell of the
  snake and is the food cell, the tick puts the new head in front and keeps the tail (one
  segment more), adds 1 to the score, lowers the speed interval by 5 but not below 60, and
  places new food by \<open>spawnFood\<close> on the grown snake: a board cell off the grown snake
  whenever there is one.
\<close>

theorem C5_eating_grows_snake:
  assumes "status s = Running"
    and "snake s = head # rest"
    and "nextHead = advance head (activeDirection s)"
    and "0 \<le> px nextHead \<and> px nextHead < 20 \<and> 0 \<le> py nextHead \<and> py nextHead < 20"
    and "nextHead \<notin> set (snake s)"
    and "nextHead = food s"
  shows "case timer rnd s of
           Inl e \<Rightarrow> False
         | Inr s' \<Rightarrow>
             snake s' = nextHead # snake s \<and>
             length (snake s') = length (snake s) + 1 \<and>
             score s' = score s + 1 \<and>
             speed s' = max 60 (speed s - 5) \<and>
             food s' = spawnFood rnd (snake s') \<and>
             (unitRandom rnd \<and> (\<exists>c \<in> set boardCells. c \<notin> set (snake s'))
                \<longrightarrow> food s' \<in> set boardCells \<and> food s' \<notin> set (snake s'))"
proof -
  have nw: "\<not> hitWall (advance head (activeDirection s))"
    using assms(3,4) by (auto simp: hitWall_def BOARD_SIZE_def)
  have t: "tick rnd s = Inr (s\<lparr>pendingDirection := None,
            snake := food s # snake s,
            food := spawnFood rnd (food s # snake s),
            score := score s + 1,
            speed := max 60 (speed s - 5)\<rparr>)"
    using assms(2,3,5,6) nw by (intro tick_eat) auto
  define s' where "s' = s\<lparr>pendingDirection := None,
            snake := food s # snake s,
            food := spawnFood rnd (food s # snake s),
            score := score s + 1,
            speed := max 60 (speed s - 5)\<rparr>"
  have r: "timer rnd s = Inr s'"
    using t assms(1) by (simp add: timer_def s'_def)
  have sn: "snake s' = nextHead # snake s" and fd: "food s' = spawnFood rnd (snake s')"
    and rest: "score s' = score s + 1" "speed s' = max 60 (speed s - 5)"
    using assms(6) by (simp_all add: s'_def)
  have "food s' \<in> set boardCells \<and> food s' \<notin> set (snake s')"
    if "unitRandom rnd" "\<exists>c \<in> set boardCells. c \<notin> set (snake s')"
  proof -
    have "freeCells (snake s') \<noteq> []"
      using that(2) set_freeCells[of "snake s'"] by auto
    then have "spawnFood rnd (snake s') \<in> set (freeCells (snake s'))"
      using that(1) by (rule spawnFood_free[rotated])
    then show ?thesis by (simp add: set_freeCells fd[symmetric])
  qed
  with sn fd rest show ?thesis
    by (simp add: r)
qed

text \<open>
  The starting snake with food right in front of its head.
\<close>

theorem C5_witness:
  "case timer (1/2) \<lparr>snake = [\<lparr>px = 10, py = 10\<rparr>, \<lparr>px = 9, py = 10\<rparr>, \<lparr>px = 8, py = 10\<rparr>],
       direction = ArrowRight, food = \<lparr>px = 11, py = 10\<rparr>, speed = 160, score = 0,
       bestScore = Num 0, status = Running, pendingDirection = None\<rparr>
   of Inl e \<Rightarrow> False
    | Inr s' \<Rightarrow>
        snake s' = [\<lparr>px = 11, py = 10\<rparr>, \<lparr>px = 10, py = 10\<rparr>, \<lparr>px = 9, py = 10\<rparr>, \<lparr>px = 8, py = 10\<rparr>] \<and>
        score s' = 1 \<and> speed s' = 155 \<and> food s' \<notin> set (snake s')"
proof -
  let ?s = "\<lparr>snake = [\<lparr>px = 10, py = 10\<rparr>, \<lparr>px = 9, py = 10\<rparr>, \<lparr>px = 8, py = 10\<rparr>],
       direction = ArrowRight, food = \<lparr>px = 11, py = 10\<rparr>, speed = 160, score = 0,
       bestScore = Num 0, status = Running, pendingDirection = None\<rparr>"
  have free: "\<lparr>px = 0, py = 0\<rparr> \<in> set boardCells"
    by (simp add: set_boardCells BOARD_SIZE_def)
  have u: "unitRandom (1/2)"
    by (simp add: unitRandom_def)
  have c: "case timer (1/2) ?s of
           Inl e \<Rightarrow> False
         | Inr s' \<Rightarrow>
             snake s' = \<lparr>px = 11, py = 10\<rparr> # snake ?s \<and>
             length (snake s') = length (snake ?s) + 1 \<and>
             score s' = score ?s + 1 \<and>
             speed s' = max 60 (speed ?s - 5) \<and>
             food s' = spawnFood (1/2) (snake s') \<and>
             (unitRandom (1/2) \<and> (\<exists>c \<in> set boardCells. c \<notin> set (snake s'))
                \<longrightarrow> food s' \<in> set boardCells \<and> food s' \<notin> set (snake s'))"
    by (rule C5_eating_grows_snake[where head = "\<lparr>px = 10, py = 10\<rparr>"
        and rest = "[\<lparr>px = 9, py = 10\<rparr>, \<lparr>px = 8, py = 10\<rparr>]"])
       (simp_all add: advance_def activeDirection_def ArrowRight_def)
  show ?thesis
  proof (cases "timer (1/2) ?s")
    case (Inl e)
    with c show ?thesis by simp
  next
    case (Inr s')
    have all: "snake s' = \<lparr>px = 11, py = 10\<rparr> # snake ?s \<and>
             length (snake s') = length (snake ?s) + 1 \<and>
             score s' = score ?s + 1 \<and>
             speed s' = max 60 (speed ?s - 5) \<and>
             food s' = spawnFood (1/2) (snake s') \<and>
             (unitRandom (1/2) \<and> (\<exists>c \<in> set boardCells. c \<notin> set (snake s'))
                \<longrightarrow> food s' \<in> set boardCells \<and> food s' \<notin> set (snake s'))"
      using c unfolding Inr sum.case .
    from all have imp: "unitRandom (1/2) \<and> (\<exists>c \<in> set boardCells. c \<notin> set (snake s'))
                \<longrightarrow> food s' \<in> set boardCells \<and> food s' \<notin> set (snake s')"
      by blast
    from all have sn: "snake s' = [\<lparr>px = 11, py = 10\<rparr>, \<lparr>px = 10, py = 10\<rparr>, \<lparr>px = 9, py = 10\<rparr>, \<lparr>px = 8, py = 10\<rparr>]"
      by simp
    from all have sc: "score s' = 1" "speed s' = 155"
      by simp_all
    have "\<lparr>px = 0, py = 0\<rparr> \<notin> set (snake s')"
      by (simp add: sn)
    with free have "\<exists>c \<in> set boardCells. c \<notin> set (snake s')"
      by blast
    with imp u have "food s' \<notin> set (snake s')"
      by blast
    with sn sc show ?thesis
      by (simp add: Inr)
  qed
qed

text \<open>
  Claim C6. In a running game, if the next head is on the board, is not a cell of the
  snake and is not the food cell, the tick puts the new head in front and drops the last
  segment; length, food, score and speed stay as they were.
\<close>

theorem C6_plain_move_keeps_length:
  assumes "status s = Running"
    and "snake s = head # rest"
    and "nextHead = advance head (activeDirection s)"
    and "0 \<le> px nextHead \<and> px nextHead < 20 \<and> 0 \<le> py nextHead \<and> py nextHead < 20"
    and "nextHead \<notin> set (snake s)"
    and "nextHead \<noteq> food s"
  shows "case timer rnd s of
           Inl e \<Rightarrow> False
         | Inr s' \<Rightarrow>
             snake s' = nextHead # butlast (snake s) \<and>
             length (snake s') = length (snake s) \<and>
             food s' = food s \<and> score s' = score s \<and> speed s' = speed s"
proof -
  have nw: "\<not> hitWall (advance head (activeDirection s))"
    using assms(3,4) by (auto simp: hitWall_def BOARD_SIZE_def)
  have "tick rnd s = Inr (s\<lparr>pendingDirection := None,
            snake := advance head (activeDirection s) # butlast (snake s)\<rparr>)"
    using assms(2,3,5,6) nw by (intro tick_move) auto
  with assms(1-3) show ?thesis
    by (simp add: timer_def)
qed

text \<open>
  The starting snake moving right with the food elsewhere.
\<close>

theorem C6_witness:
  "case timer 0 \<lparr>snake = [\<lparr>px = 10, py = 10\<rparr>, \<lparr>px = 9, py = 10\<rparr>, \<lparr>px = 8, py = 10\<rparr>],
       direction = ArrowRight, food = \<lparr>px = 3, py = 4\<rparr>, speed = 160, score = 0,
       bestScore = Num 0, status = Running, pendingDirection = None\<rparr>
   of Inl e \<Rightarrow> False
    | Inr s' \<Rightarrow>
        snake s' = [\<lparr>px = 11, py = 10\<rparr>, \<lparr>px = 10, py = 10\<rparr>, \<lparr>px = 9, py = 10\<rparr>] \<and>
        food s' = \<lparr>px = 3, py = 4\<rparr> \<and> score s' = 0 \<and> speed s' = 160"
  using C6_plain_move_keeps_length[where head = "\<lparr>px = 10, py = 10\<rparr>"
        and rest = "[\<lparr>px = 9, py = 10\<rparr>, \<lparr>px = 8, py = 10\<rparr>]"
        and nextHead = "\<lparr>px = 11, py = 10\<rparr>" and rnd = 0
        and s = "\<lparr>snake = [\<lparr>px = 10, py = 10\<rparr>, \<lparr>px = 9, py = 10\<rparr>, \<lparr>px = 8, py = 10\<rparr>],
       direction = ArrowRight, food = \<lparr>px = 3, py = 4\<rparr>, speed = 160, score = 0,
       bestScore = Num 0, status = Running, pendingDirection = None\<rparr>"]
  by (simp add: advance_def activeDirection_def ArrowRight_def split: sum.splits)

subsection \<open>Key presses, direction buffering and the stored best score\<close>

lemma boardCells_first: "\<exists>cs. boardCells = \<lparr>px = 0, py = 0\<rparr> # cs"
proof -
  have "[0..BOARD_SIZE - 1] = 0 # [1..BOARD_SIZE - 1]"
    by (simp add: BOARD_SIZE_def upto_rec1)
  then show ?thesis
    by (simp add: boardCells_def)
qed

lemma spawnFood_zero:
  assumes "\<lparr>px = 0, py = 0\<rparr> \<notin> set occupied"
  shows "spawnFood 0 occupied = \<lparr>px = 0, py = 0\<rparr>"
proof -
  obtain cs where bc: "boardCells = \<lparr>px = 0, py = 0\<rparr> # cs"
    using boardCells_first by blast
  have "freeCells occupied = \<lparr>px = 0, py = 0\<rparr> # filter (\<lambda>c. \<not> isOccupied occupied c) cs"
    unfolding freeCells_def bc using assms by (simp add: isOccupied_iff)
  then show ?thesis
    by (simp add: spawnFood_def)
qed

lemma food0: "spawnFood 0 initialSnake = \<lparr>px = 0, py = 0\<rparr>"
  by (rule spawnFood_zero) (simp add: initialSnake_def)

lemma bestScore_mount:
  "bestScore (mount rnd storedBest) =
     (case storedBest of
        None \<Rightarrow> Num 0
      | Some str \<Rightarrow> if str = [] then Num 0 else Number_js str)"
  by (simp add: mount_def loadBestScore_def initialState_def split: option.splits)

lemmas Number_js_defs =
  Number_js_def trimString_def isStrWhiteSpaceChar_def parseSignedDecimal_def
  parseUnsignedDecimal_def parseExponent_def parseNonDecimal_def isDigitOf_def digitOf_def
  digitsValue_def roundOverflow_def Let_def

lemma Number_js_examples:
  "Number_js ''abc'' = NaN" "Number_js ''12'' = Num 12" "Number_js ''12px'' = NaN"
  by (simp_all add: Number_js_defs)

lemma mount_None: "mount 0 None = \<lparr>snake = initialSnake, direction = ArrowRight,
      food = \<lparr>px = 0, py = 0\<rparr>, speed = 160, score = 0, bestScore = Num 0,
      status = Ready, pendingDirection = None\<rparr>"
  by (simp add: mount_def loadBestScore_def initialState_def food0 INITIAL_SPEED_def)

lemma DIRECTIONS_simps:
  "DIRECTIONS ''ArrowUp'' = Some ArrowUp" "DIRECTIONS ''ArrowDown'' = Some ArrowDown"
  "DIRECTIONS ''ArrowLeft'' = Some ArrowLeft" "DIRECTIONS ''ArrowRight'' = Some ArrowRight"
  by (simp_all add: DIRECTIONS_def)

text \<open>
  Claim C1 says that a tick with a buffered direction moves in that direction, clears the
  buffer and makes that direction the current one, so that later ticks without input keep
  it. The code does the first two and not the third: \<open>tick\<close> never writes the
  \<open>direction\<close> cell. Mounted with nothing stored, started with a key press and given
  \<open>ArrowDown\<close>, the snake moves down once (head \<open>(10, 11)\<close>, buffer empty,
  \<open>direction\<close> still right) and on the next tick moves right to \<open>(11, 11)\<close>
  instead of down to \<open>(10, 12)\<close>.
\<close>

theorem C1_direction_not_promoted:
  "run [KeyDown ''ArrowUp'' 0, KeyDown ''ArrowDown'' 0] (mount 0 None) =
     Inr \<lparr>snake = [\<lparr>px = 10, py = 10\<rparr>, \<lparr>px = 9, py = 10\<rparr>, \<lparr>px = 8, py = 10\<rparr>],
          direction = ArrowRight, food = \<lparr>px = 0, py = 0\<rparr>, speed = 160, score = 0,
          bestScore = Num 0, status = Running, pendingDirection = Some ArrowDown\<rparr> \<and>
   run [KeyDown ''ArrowUp'' 0, KeyDown ''ArrowDown'' 0, Interval 0] (mount 0 None) =
     Inr \<lparr>snake = [\<lparr>px = 10, py = 11\<rparr>, \<lparr>px = 10, py = 10\<rparr>, \<lparr>px = 9, py = 10\<rparr>],
          direction = ArrowRight, food = \<lparr>px = 0, py = 0\<rparr>, speed = 160, score = 0,
          bestScore = Num 0, status = Running, pendingDirection = None\<rparr> \<and>
   run [KeyDown ''ArrowUp'' 0, KeyDown ''ArrowDown'' 0, Interval 0, Interval 0] (mount 0 None) =
     Inr \<lparr>snake = [\<lparr>px = 11, py = 11\<rparr>, \<lparr>px = 10, py = 11\<rparr>, \<lparr>px = 10, py = 10\<rparr>],
          direction = ArrowRight, food = \<lparr>px = 0, py = 0\<rparr>, speed = 160, score = 0,
          bestScore = Num 0, status = Running, pendingDirection = None\<rparr>"
  by (simp add: mount_None handleKeyDown_def DIRECTIONS_simps timer_def tick_def Let_def
      initialSnake_def activeDirection_def isOpposite_def advance_def hitWall_def hitSelf_def
      BOARD_SIZE_def ArrowUp_def ArrowDown_def ArrowRight_def)

text \<open>
  Claim C2 says that a direction key pressed in status \<open>Ready\<close>, not opposite to the
  effective direction, starts the game and is buffered. In the code the key starts the
  game, and the test \<open>status !== "running"\<close> then returns on the status of the render
  that installed the handler: nothing is buffered.
\<close>

theorem C2_ready_key_not_buffered:
  "status (mount 0 None) = Ready \<and>
   pendingDirection (mount 0 None) = None \<and>
   DIRECTIONS ''ArrowUp'' = Some ArrowUp \<and>
   \<not> isOpposite (activeDirection (mount 0 None)) ArrowUp \<and>
   handleKeyDown ''ArrowUp'' 0 (mount 0 None) = (mount 0 None)\<lparr>status := Running\<rparr> \<and>
   pendingDirection (handleKeyDown ''ArrowUp'' 0 (mount 0 None)) = None"
  by (simp add: mount_None handleKeyDown_def DIRECTIONS_simps activeDirection_def
      isOpposite_def ArrowUp_def ArrowRight_def)

lemma space_not_direction: "DIRECTIONS '' '' = None"
  by (simp add: DIRECTIONS_def)

lemma handleKeyDown_ready:
  "status s = Ready \<Longrightarrow> DIRECTIONS key = Some next \<Longrightarrow>
   handleKeyDown key rnd s = s\<lparr>status := Running\<rparr>"
  using space_not_direction by (auto simp: handleKeyDown_def)

text \<open>
  Claim C10 says that a request opposite to the effective direction leaves every part of
  the state unchanged in status \<open>Ready\<close> as well as \<open>Running\<close>. In \<open>Ready\<close> the key
  still starts the game: \<open>ArrowLeft\<close> on the freshly mounted game changes the status.
\<close>

theorem C10_counterexample:
  "status (mount 0 None) = Ready \<and>
   DIRECTIONS ''ArrowLeft'' = Some ArrowLeft \<and>
   isOpposite (activeDirection (mount 0 None)) ArrowLeft \<and>
   handleKeyDown ''ArrowLeft'' 0 (mount 0 None) \<noteq> mount 0 None"
  by (simp add: mount_None handleKeyDown_def DIRECTIONS_simps activeDirection_def
      isOpposite_def ArrowLeft_def ArrowRight_def)

text \<open>
  Claim C10, as the code has it: a direction key opposite to the effective direction (the
  buffered one if there is one, else \<open>direction\<close>) changes nothing while the game is
  running; in status \<open>Ready\<close> it changes the status to \<open>Running\<close> and nothing else. From
  a running game with direction right and an empty buffer, \<open>ArrowDown\<close> followed by
  \<open>ArrowUp\<close> leaves \<open>ArrowDown\<close> buffered and everything else as it was.
\<close>

theorem C10_opposite_request_while_running:
  assumes "DIRECTIONS key = Some requested"
    and "isOpposite (activeDirection s) requested"
  shows "(status s = Running \<longrightarrow> handleKeyDown key rnd s = s) \<and>
         (status s = Ready \<longrightarrow> handleKeyDown key rnd s = s\<lparr>status := Running\<rparr>) \<and>
         (status s = Running \<and> direction s = ArrowRight \<and> pendingDirection s = None \<longrightarrow>
            handleKeyDown ''ArrowUp'' rb (handleKeyDown ''ArrowDown'' ra s)
              = s\<lparr>pendingDirection := Some ArrowDown\<rparr>)"
proof -
  have k: "key \<noteq> '' ''"
    using assms(1) space_not_direction by auto
  have run: "handleKeyDown key rnd s = s" if "status s = Running"
    using that assms k by (simp add: handleKeyDown_def)
  have rdy: "handleKeyDown key rnd s = s\<lparr>status := Running\<rparr>" if "status s = Ready"
    using that assms(1) by (rule handleKeyDown_ready)
  have scen: "handleKeyDown ''ArrowUp'' rb (handleKeyDown ''ArrowDown'' ra s)
              = s\<lparr>pendingDirection := Some ArrowDown\<rparr>"
    if "status s = Running" "direction s = ArrowRight" "pendingDirection s = None"
    using that
    by (simp add: handleKeyDown_def DIRECTIONS_simps activeDirection_def isOpposite_def
        ArrowUp_def ArrowDown_def ArrowRight_def)
  from run rdy scen show ?thesis by blast
qed


text \<open>
  A left key on a game heading right, running and ready, and the down-then-up sequence.
\<close>

theorem C10_witness:
  "handleKeyDown ''ArrowLeft'' 0
     \<lparr>snake = initialSnake, direction = ArrowRight, food = \<lparr>px = 0, py = 0\<rparr>, speed = 160,
      score = 0, bestScore = Num 0, status = Running, pendingDirection = None\<rparr>
   = \<lparr>snake = initialSnake, direction = ArrowRight, food = \<lparr>px = 0, py = 0\<rparr>, speed = 160,
      score = 0, bestScore = Num 0, status = Running, pendingDirection = None\<rparr> \<and>
   handleKeyDown ''ArrowUp'' 0 (handleKeyDown ''ArrowDown'' 0
     \<lparr>snake = initialSnake, direction = ArrowRight, food = \<lparr>px = 0, py = 0\<rparr>, speed = 160,
      score = 0, bestScore = Num 0, status = Running, pendingDirection = None\<rparr>)
   = \<lparr>snake = initialSnake, direction = ArrowRight, food = \<lparr>px = 0, py = 0\<rparr>, speed = 160,
      score = 0, bestScore = Num 0, status = Running, pendingDirection = Some ArrowDown\<rparr> \<and>
   handleKeyDown ''ArrowLeft'' 0
     \<lparr>snake = initialSnake, direction = ArrowRight, food = \<lparr>px = 0, py = 0\<rparr>, speed = 160,
      score = 0, bestScore = Num 0, status = Ready, pendingDirection = None\<rparr>
   = \<lparr>snake = initialSnake, direction = ArrowRight, food = \<lparr>px = 0, py = 0\<rparr>, speed = 160,
      score = 0, bestScore = Num 0, status = Running, pendingDirection = None\<rparr>"
proof -
  have opp: "isOpposite ArrowRight ArrowLeft"
    by (simp add: isOpposite_def ArrowRight_def ArrowLeft_def)
  show ?thesis
    using C10_opposite_request_while_running[where key = "''ArrowLeft''" and requested = ArrowLeft
        and rnd = 0 and ra = 0 and rb = 0
        and s = "\<lparr>snake = initialSnake, direction = ArrowRight, food = \<lparr>px = 0, py = 0\<rparr>,
          speed = 160, score = 0, bestScore = Num 0, status = Running, pendingDirection = None\<rparr>"]
      C10_opposite_request_while_running[where key = "''ArrowLeft''" and requested = ArrowLeft
        and rnd = 0 and ra = 0 and rb = 0
        and s = "\<lparr>snake = initialSnake, direction = ArrowRight, food = \<lparr>px = 0, py = 0\<rparr>,
          speed = 160, score = 0, bestScore = Num 0, status = Ready, pendingDirection = None\<rparr>"]
      opp
    by (simp add: DIRECTIONS_simps activeDirection_def)
qed

text \<open>
  Claim C9 says that a malformed stored best score is treated like an absent one and the
  best score starts at 0. The stored string \<open>abc\<close> is not empty, so it is converted, and
  the best score becomes \<open>NaN\<close>.
\<close>

theorem C9_counterexample:
  "bestScore (mount 0 (Some ''abc'')) = NaN \<and> bestScore (mount 0 (Some ''abc'')) \<noteq> Num 0"
  by (simp add: bestScore_mount Number_js_examples)

lemma trimString_head:
  assumes "\<not> isStrWhiteSpaceChar c"
  shows "\<exists>ts. trimString (c # cs) = c # ts"
proof -
  have "dropWhile isStrWhiteSpaceChar (rev cs @ [c]) =
          (if \<forall>x \<in> set (rev cs). isStrWhiteSpaceChar x then [c]
           else dropWhile isStrWhiteSpaceChar (rev cs) @ [c])"
    using assms by (simp add: dropWhile_append)
  then obtain zs where zs: "dropWhile isStrWhiteSpaceChar (rev cs @ [c]) = zs @ [c]"
    by (metis append_Nil)
  have "trimString (c # cs) = rev (dropWhile isStrWhiteSpaceChar (rev cs @ [c]))"
    using assms by (simp add: trimString_def)
  also have "\<dots> = c # rev zs"
    by (simp add: zs)
  finally show ?thesis by blast
qed

lemma Number_js_NaN:
  assumes "\<not> isStrWhiteSpaceChar c" "\<not> isDigitOf 10 c" "c \<notin> set ''+-.I''"
  shows "Number_js (c # cs) = NaN"
proof -
  obtain ts where t: "trimString (c # cs) = c # ts"
    using trimString_head[OF assms(1)] by blast
  have c0: "c \<noteq> CHR ''0''"
    using assms(2) by (auto simp: isDigitOf_def digitOf_def)
  have "parseUnsignedDecimal (c # ts) = None"
    using assms(2,3) by (simp add: parseUnsignedDecimal_def)
  moreover have "c # ts \<noteq> ''Infinity''"
    using assms(3) by simp
  ultimately have "parseSignedDecimal (c # ts) = NaN"
    using assms(3) by (simp add: parseSignedDecimal_def)
  then show ?thesis
    using c0 by (simp add: Number_js_def t)
qed

text \<open>
  Claim C9, as the code has it: after mounting, the best score is 0 when nothing or the
  empty string is stored; every other stored string becomes the best score through
  \<open>Number\<close>, without any check of the result. In particular a stored string whose first
  character is neither white space, a decimal digit, a sign, a dot nor \<open>I\<close> makes the best
  score \<open>NaN\<close>.
\<close>

theorem C9_stored_best_score_unvalidated:
  "bestScore (mount rnd storedBest) =
     (case storedBest of
        None \<Rightarrow> Num 0
      | Some str \<Rightarrow> if str = [] then Num 0 else Number_js str) \<and>
   (\<forall>c cs. storedBest = Some (c # cs) \<and> \<not> isStrWhiteSpaceChar c \<and> \<not> isDigitOf 10 c \<and>
       c \<notin> set ''+-.I'' \<longrightarrow> bestScore (mount rnd storedBest) = NaN)"
  by (auto simp: bestScore_mount Number_js_NaN)

text \<open>
  Nothing stored, the empty string, a numeral, a numeral followed by letters, and a word.
\<close>

theorem C9_witness:
  "bestScore (mount 0 None) = Num 0 \<and> bestScore (mount 0 (Some [])) = Num 0 \<and>
   bestScore (mount 0 (Some ''12'')) = Num 12 \<and> bestScore (mount 0 (Some ''12px'')) = NaN \<and>
   bestScore (mount 0 (Some ''none'')) = NaN"
proof -
  have w: "\<not> isStrWhiteSpaceChar CHR ''n''" "\<not> isDigitOf 10 CHR ''n''"
    by (simp_all add: isStrWhiteSpaceChar_def isDigitOf_def digitOf_def)
  have "bestScore (mount 0 (Some ''none'')) = NaN"
    using C9_stored_best_score_unvalidated[of 0 "Some ''none''", THEN conjunct2, rule_format,
        of "CHR ''n''" "''one''"] w
    by simp
  then show ?thesis
    using Number_js_examples C9_stored_best_score_unvalidated[of 0 None]
      C9_stored_best_score_unvalidated[of 0 "Some []"]
      C9_stored_best_score_unvalidated[of 0 "Some ''12''"]
      C9_stored_best_score_unvalidated[of 0 "Some ''12px''"]
    by simp
qed

subsection \<open>The invariant holds in every reachable state\<close>

lemma spawnFood_cases:
  assumes "unitRandom rnd"
  shows "(spawnFood rnd occ \<in> set boardCells \<and> spawnFood rnd occ \<notin> set occ) \<or>
         (boardFull occ \<and> spawnFood rnd occ = \<lparr>px = 0, py = 0\<rparr>)"
proof (cases "freeCells occ = []")
  case True
  then have "set boardCells - set occ = {}"
    using set_freeCells[of occ] by simp
  then have "boardFull occ"
    by (auto simp: boardFull_def)
  with True show ?thesis
    by (simp add: spawnFood_fallback)
next
  case False
  then have "spawnFood rnd occ \<in> set (freeCells occ)"
    using assms by (rule spawnFood_free[rotated])
  then show ?thesis
    by (simp add: set_freeCells)
qed

lemma initialSnake_facts:
  "distinct initialSnake" "set initialSnake \<subseteq> set boardCells" "length initialSnake = 3"
  "\<not> boardFull initialSnake"
proof -
  show "distinct initialSnake" "length initialSnake = 3"
    by (simp_all add: initialSnake_def)
  show "set initialSnake \<subseteq> set boardCells"
    by (simp add: initialSnake_def set_boardCells BOARD_SIZE_def)
  have "\<lparr>px = 0, py = 0\<rparr> \<in> set boardCells" "\<lparr>px = 0, py = 0\<rparr> \<notin> set initialSnake"
    by (simp_all add: initialSnake_def set_boardCells BOARD_SIZE_def)
  then show "\<not> boardFull initialSnake"
    by (auto simp: boardFull_def)
qed

lemma gameInv_initialState: "unitRandom rnd \<Longrightarrow> gameInv (initialState rnd)"
  using spawnFood_cases[of rnd initialSnake] initialSnake_facts
  by (auto simp: gameInv_def initialState_def)

lemma gameInv_loadBestScore: "gameInv s \<Longrightarrow> gameInv (loadBestScore storedBest s)"
  by (simp add: gameInv_def loadBestScore_def split: option.splits)

lemma gameInv_mount: "unitRandom rnd \<Longrightarrow> gameInv (mount rnd storedBest)"
  by (simp add: mount_def gameInv_initialState gameInv_loadBestScore)

lemma gameInv_resetGame: "unitRandom rnd \<Longrightarrow> gameInv (resetGame rnd s)"
  using spawnFood_cases[of rnd initialSnake] initialSnake_facts
  by (auto simp: gameInv_def resetGame_def)

lemma gameInv_cong:
  "snake a = snake b \<Longrightarrow> food a = food b \<Longrightarrow> score a = score b \<Longrightarrow> gameInv a = gameInv b"
  by (simp add: gameInv_def)

lemma handleKeyDown_frame:
  assumes "\<not> (key = '' '' \<and> status s \<noteq> Running)"
  shows "snake (handleKeyDown key rnd s) = snake s"
    and "food (handleKeyDown key rnd s) = food s"
    and "score (handleKeyDown key rnd s) = score s"
    and "speed (handleKeyDown key rnd s) = speed s"
    and "direction (handleKeyDown key rnd s) = direction s"
    and "bestScore (handleKeyDown key rnd s) = bestScore s"
  using assms by (auto simp: handleKeyDown_def Let_def split: option.splits)

lemma gameInv_handleKeyDown:
  assumes "unitRandom rnd" "gameInv s"
  shows "gameInv (handleKeyDown key rnd s)"
proof (cases "key = '' '' \<and> status s \<noteq> Running")
  case True
  then have "handleKeyDown key rnd s = resetGame rnd s"
    by (simp add: handleKeyDown_def)
  with assms(1) show ?thesis
    by (simp add: gameInv_resetGame)
next
  case False
  then have "gameInv (handleKeyDown key rnd s) = gameInv s"
    by (intro gameInv_cong handleKeyDown_frame)
  with assms(2) show ?thesis by simp
qed

lemma tick_cases:
  assumes "snake s = head # rest"
  obtains (collision) "tick rnd s = Inr (s\<lparr>pendingDirection := None, status := Over,
            bestScore := Math_max (bestScore s) (Num (of_int (score s)))\<rparr>)"
  | (eat) "food s \<in> set boardCells" "food s \<notin> set (snake s)"
      "tick rnd s = Inr (s\<lparr>pendingDirection := None,
            snake := food s # snake s,
            food := spawnFood rnd (food s # snake s),
            score := score s + 1,
            speed := max 60 (speed s - 5)\<rparr>)"
  | (move) nextHead where "nextHead \<in> set boardCells" "nextHead \<notin> set (snake s)"
      "nextHead \<noteq> food s"
      "tick rnd s = Inr (s\<lparr>pendingDirection := None, snake := nextHead # butlast (snake s)\<rparr>)"
proof -
  let ?n = "advance head (activeDirection s)"
  consider "hitWall ?n \<or> ?n \<in> set (snake s)"
    | "\<not> hitWall ?n" "?n \<notin> set (snake s)" "?n = food s"
    | "\<not> hitWall ?n" "?n \<notin> set (snake s)" "?n \<noteq> food s"
    by blast
  then show thesis
  proof cases
    case 1
    then show ?thesis using assms collision tick_collision by blast
  next
    case 2
    then show ?thesis using assms eat[OF _ _ tick_eat] by (simp add: hitWall_iff)
  next
    case 3
    then show ?thesis using assms move[OF _ _ _ tick_move] by (simp add: hitWall_iff)
  qed
qed

lemma gameInv_tick:
  assumes "unitRandom rnd" "gameInv s" "tick rnd s = Inr s'"
  shows "gameInv s'"
proof -
  from assms(3) obtain head rest where sn: "snake s = head # rest"
    by (cases "snake s") (auto simp: tick_def)
  from sn show ?thesis
  proof (cases rule: tick_cases[where rnd = rnd])
    case collision
    with assms show ?thesis by (auto simp: gameInv_def)
  next
    case eat
    with assms(3) have s': "s' = s\<lparr>pendingDirection := None,
            snake := food s # snake s,
            food := spawnFood rnd (food s # snake s),
            score := score s + 1,
            speed := max 60 (speed s - 5)\<rparr>" by simp
    show ?thesis
      using assms(2) eat(1,2) spawnFood_cases[OF assms(1), of "food s # snake s"]
      unfolding s' gameInv_def by auto
  next
    case (move nextHead)
    with assms(3) have s': "s' = s\<lparr>pendingDirection := None,
         snake := nextHead # butlast (snake s)\<rparr>" by simp
    have nf: "\<not> boardFull (snake s)"
      using move(1,2) by (auto simp: boardFull_def)
    have sub: "set (butlast (snake s)) \<subseteq> set (snake s)"
      by (auto dest: in_set_butlastD)
    have len: "length (butlast (snake s)) + 1 = length (snake s)"
      using sn by simp
    show ?thesis
      using assms(2) move(1,2,3) nf sub len
      unfolding s' gameInv_def by (auto simp: distinct_butlast)
  qed
qed

lemma gameInv_timer: "unitRandom rnd \<Longrightarrow> gameInv s \<Longrightarrow> timer rnd s = Inr s' \<Longrightarrow> gameInv s'"
  by (auto simp: timer_def gameInv_tick split: if_splits)

lemma reachable_gameInv: "reachable s \<Longrightarrow> gameInv s"
  by (induction rule: reachable.induct)
     (simp_all add: gameInv_mount gameInv_handleKeyDown gameInv_timer gameInv_resetGame)

lemma gameInv_nonempty: "gameInv s \<Longrightarrow> snake s \<noteq> []"
  by (auto simp: gameInv_def)

lemma timer_total: "gameInv s \<Longrightarrow> \<exists>s'. timer rnd s = Inr s'"
  using gameInv_nonempty[of s]
  by (cases "snake s") (auto simp: timer_def tick_def Let_def)

lemma timer_length_mono:
  assumes "timer rnd s = Inr s'"
  shows "length (snake s) \<le> length (snake s')"
proof (cases "status s = Running")
  case False
  with assms show ?thesis by (simp add: timer_def)
next
  case True
  with assms have t: "tick rnd s = Inr s'" by (simp add: timer_def)
  then obtain head rest where sn: "snake s = head # rest"
    by (cases "snake s") (auto simp: tick_def)
  from sn show ?thesis
    by (cases rule: tick_cases[where rnd = rnd]) (use t sn in auto)
qed

lemma unitRandom_zero: "unitRandom 0"
  by (simp add: unitRandom_def)

lemma boardFull_freeCells: "boardFull occupied \<Longrightarrow> freeCells occupied = []"
proof -
  assume "boardFull occupied"
  then have "set (freeCells occupied) = {}"
    by (auto simp: set_freeCells boardFull_def)
  then show ?thesis
    by (simp only: set_empty)
qed

text \<open>
  Claim C8. In every reachable state the segments of the snake are pairwise different
  cells and there are at least three of them, exactly three while the score is 0 (no food
  eaten since the game was set up). A timer firing always returns and never shortens the
  snake, and a key press that does not reset the game leaves the snake as it is.
\<close>

theorem C8_snake_distinct_and_at_least_three:
  assumes "reachable s"
  shows "distinct (snake s) \<and>
         3 \<le> length (snake s) \<and>
         (score s = 0 \<longrightarrow> length (snake s) = 3) \<and>
         (\<forall>rnd. \<exists>s'. timer rnd s = Inr s' \<and> length (snake s) \<le> length (snake s')) \<and>
         (\<forall>key rnd. \<not> (key = '' '' \<and> status s \<noteq> Running) \<longrightarrow>
            snake (handleKeyDown key rnd s) = snake s)"
proof -
  have inv: "gameInv s"
    using assms by (rule reachable_gameInv)
  have "\<exists>s'. timer rnd s = Inr s' \<and> length (snake s) \<le> length (snake s')" for rnd
    using timer_total[OF inv, of rnd] timer_length_mono by blast
  moreover have "snake (handleKeyDown key rnd s) = snake s"
    if "\<not> (key = '' '' \<and> status s \<noteq> Running)" for key rnd
    using that by (rule handleKeyDown_frame)
  moreover have "distinct (snake s)" "3 \<le> length (snake s)" "score s = 0 \<longrightarrow> length (snake s) = 3"
    using inv by (auto simp: gameInv_def)
  ultimately show ?thesis by blast
qed



subsection \<open>The direction cell\<close>

text \<open>
  A tick consumes the buffered direction and leaves \<open>direction\<close> alone. Only \<open>resetGame\<close>
  writes that cell, and it writes \<open>ArrowRight\<close>, the value the cell starts with.
\<close>

lemma tick_direction:
  assumes "tick rnd s = Inr s'"
  shows "direction s' = direction s" and "pendingDirection s' = None"
proof -
  from assms obtain head rest where sn: "snake s = head # rest"
    by (cases "snake s") (auto simp: tick_def)
  from sn have "direction s' = direction s \<and> pendingDirection s' = None"
    by (cases rule: tick_cases[where rnd = rnd]) (use assms in auto)
  then show "direction s' = direction s" and "pendingDirection s' = None"
    by simp_all
qed

lemma timer_direction: "timer rnd s = Inr s' \<Longrightarrow> direction s' = direction s"
  by (auto simp: timer_def tick_direction split: if_splits)

lemma handleKeyDown_direction:
  "direction s = ArrowRight \<Longrightarrow> direction (handleKeyDown key rnd s) = ArrowRight"
  by (auto simp: handleKeyDown_def resetGame_def Let_def split: option.splits)

lemma reachable_direction: "reachable s \<Longrightarrow> direction s = ArrowRight"
proof (induction rule: reachable.induct)
  case (mounted rnd storedBest)
  show ?case
    by (simp add: mount_def loadBestScore_def initialState_def split: option.splits)
next
  case (keyDown s rnd key)
  then show ?case by (simp add: handleKeyDown_direction)
next
  case (interval s rnd s')
  then show ?case by (simp add: timer_direction)
next
  case (restart s rnd)
  show ?case by (simp add: resetGame_def)
qed

subsection \<open>The board can be filled\<close>

lemma fillingPath_index: "map pathIndex fillingPath = [0..399]"
  by code_simp

lemma fillingPath_distinct: "distinct fillingPath"
proof -
  have "distinct (map pathIndex fillingPath)"
    by (simp add: fillingPath_index)
  then show ?thesis
    by (simp add: distinct_map)
qed

lemma spawnFood_any:
  assumes "c \<in> set (freeCells occupied)"
  shows "\<exists>rnd. unitRandom rnd \<and> spawnFood rnd occupied = c"
proof -
  let ?fc = "freeCells occupied"
  from assms obtain i where i: "i < length ?fc" "?fc ! i = c"
    by (auto simp: in_set_conv_nth)
  define rnd :: rat where "rnd = of_nat i / of_nat (length ?fc)"
  have pos: "0 < length ?fc" using i(1) by (cases ?fc) simp_all
  have "rnd * of_nat (length ?fc) = of_nat i"
    using pos by (simp add: rnd_def)
  then have "nat \<lfloor>rnd * of_nat (length ?fc)\<rfloor> = i"
    by simp
  moreover have "unitRandom rnd"
    using i(1) pos by (simp add: unitRandom_def rnd_def)
  ultimately show ?thesis
    using i pos by (auto simp: spawnFood_def Let_def intro!: exI[of _ rnd])
qed



lemma steer:
  assumes "reachable s" "status s = Running" "pendingDirection s = None"
    and "direction s = ArrowRight"
    and "d \<in> set [ArrowUp, ArrowDown, ArrowLeft, ArrowRight]"
  shows "reachable (s\<lparr>pendingDirection := Some d\<rparr>)"
proof -
  have one: "handleKeyDown key 0 s = s\<lparr>pendingDirection := Some n\<rparr>"
    if "DIRECTIONS key = Some n" "\<not> isOpposite ArrowRight n" for key n
    using that assms(2-4) space_not_direction
    by (auto simp: handleKeyDown_def activeDirection_def)
  have up: "reachable (s\<lparr>pendingDirection := Some ArrowUp\<rparr>)"
    using reachable.keyDown[OF assms(1) unitRandom_zero, of "''ArrowUp''"]
      one[of "''ArrowUp''" ArrowUp]
    by (simp add: DIRECTIONS_simps isOpposite_def ArrowRight_def ArrowUp_def)
  have down: "reachable (s\<lparr>pendingDirection := Some ArrowDown\<rparr>)"
    using reachable.keyDown[OF assms(1) unitRandom_zero, of "''ArrowDown''"]
      one[of "''ArrowDown''" ArrowDown]
    by (simp add: DIRECTIONS_simps isOpposite_def ArrowRight_def ArrowDown_def)
  have right: "reachable (s\<lparr>pendingDirection := Some ArrowRight\<rparr>)"
    using reachable.keyDown[OF assms(1) unitRandom_zero, of "''ArrowRight''"]
      one[of "''ArrowRight''" ArrowRight]
    by (simp add: DIRECTIONS_simps isOpposite_def ArrowRight_def)
  have "handleKeyDown ''ArrowLeft'' 0 (s\<lparr>pendingDirection := Some ArrowUp\<rparr>)
          = s\<lparr>pendingDirection := Some ArrowLeft\<rparr>"
    using assms(2)
    by (simp add: handleKeyDown_def DIRECTIONS_simps activeDirection_def isOpposite_def
        ArrowUp_def ArrowLeft_def)
  then have left: "reachable (s\<lparr>pendingDirection := Some ArrowLeft\<rparr>)"
    using reachable.keyDown[OF up unitRandom_zero, of "''ArrowLeft''"] by simp
  from assms(5) up down left right show ?thesis by auto
qed

lemma stepsAdjacent_nth:
  "stepsAdjacent cs \<Longrightarrow> Suc i < length cs \<Longrightarrow>
   cs ! Suc i \<in> set (map (advance (cs ! i)) [ArrowUp, ArrowDown, ArrowLeft, ArrowRight])"
proof (induction cs arbitrary: i rule: stepsAdjacent.induct)
  case (1 a b cs)
  show ?case
  proof (cases i)
    case 0
    with "1.prems" show ?thesis by simp
  next
    case (Suc j)
    with "1.prems" "1.IH"[of j] show ?thesis by simp
  qed
qed simp_all

lemma nth_notin_take:
  assumes "distinct xs" "n < length xs"
  shows "xs ! n \<notin> set (take n xs)"
proof -
  have "distinct (take n xs @ xs ! n # drop (Suc n) xs)"
    using assms by (simp add: id_take_nth_drop[symmetric])
  then show ?thesis by simp
qed

lemma fillingPath_length: "length fillingPath = 400"
  by code_simp

lemma fillingPath_adjacent: "stepsAdjacent fillingPath"
  by code_simp

lemma fillingPath_onBoard: "set fillingPath \<subseteq> set boardCells"
proof -
  have "list_all (\<lambda>c. 0 \<le> px c \<and> px c < 20 \<and> 0 \<le> py c \<and> py c < 20) fillingPath"
    by code_simp
  then show ?thesis
    by (auto simp: list_all_iff set_boardCells BOARD_SIZE_def)
qed

lemma fillingPath_start: "rev (take 3 fillingPath) = initialSnake"
  by code_simp

lemma fillingPath_first_food: "fillingPath ! 3 = \<lparr>px = 11, py = 10\<rparr>"
  by code_simp

lemma boardCells_length: "length boardCells = 400"
  by code_simp

lemma fillingPath_full: "boardFull fillingPath"
proof -
  have "card (set boardCells) \<le> card (set fillingPath)"
    using card_length[of boardCells]
    by (simp add: distinct_card[OF fillingPath_distinct] fillingPath_length boardCells_length)
  then have "set fillingPath = set boardCells"
    using fillingPath_onBoard by (intro card_seteq) simp_all
  then show ?thesis
    by (simp add: boardFull_def)
qed

lemma pathState_zero: "\<exists>rnd. unitRandom rnd \<and> pathState 0 = handleKeyDown ''ArrowUp'' 0 (mount rnd None)"
proof -
  have "\<lparr>px = 11, py = 10\<rparr> \<in> set (freeCells initialSnake)"
    by (simp add: set_freeCells set_boardCells BOARD_SIZE_def initialSnake_def)
  then obtain rnd where r: "unitRandom rnd" "spawnFood rnd initialSnake = \<lparr>px = 11, py = 10\<rparr>"
    using spawnFood_any by blast
  have "pathState 0 = handleKeyDown ''ArrowUp'' 0 (mount rnd None)"
    by (simp add: pathState_def fillingPath_start fillingPath_length fillingPath_first_food
        handleKeyDown_def DIRECTIONS_simps mount_def loadBestScore_def initialState_def r(2)
        INITIAL_SPEED_def)
  with r(1) show ?thesis by blast
qed

lemma reachable_pathState_zero: "reachable (pathState 0)"
proof -
  obtain rnd where r: "unitRandom rnd" "pathState 0 = handleKeyDown ''ArrowUp'' 0 (mount rnd None)"
    using pathState_zero by blast
  have "reachable (handleKeyDown ''ArrowUp'' 0 (mount rnd None))"
    by (intro reachable.keyDown reachable.mounted r(1) unitRandom_zero)
  with r(2) show ?thesis by simp
qed

lemma pathState_step:
  assumes "k < 397" "reachable (pathState k)"
  shows "reachable (pathState (Suc k))"
proof -
  let ?p = fillingPath
  let ?s = "pathState k"
  have len: "length ?p = 400" by (rule fillingPath_length)
  have k3: "k + 3 = Suc (k + 2)" and k4: "k + 4 = Suc (k + 3)"
    by simp_all
  have tk3: "take (k + 3) ?p = take (k + 2) ?p @ [?p ! (k + 2)]"
    unfolding k3 using assms(1) len by (intro take_Suc_conv_app_nth) simp
  have tk4: "take (k + 4) ?p = take (k + 3) ?p @ [?p ! (k + 3)]"
    unfolding k4 using assms(1) len by (intro take_Suc_conv_app_nth) simp
  have snk: "snake ?s = ?p ! (k + 2) # rev (take (k + 2) ?p)"
    unfolding pathState_def tk3 by simp
  have fd: "food ?s = ?p ! (k + 3)"
    using assms(1) len by (simp add: pathState_def)
  have "?p ! Suc (k + 2) \<in> set (map (advance (?p ! (k + 2))) [ArrowUp, ArrowDown, ArrowLeft, ArrowRight])"
    using assms(1) len by (intro stepsAdjacent_nth fillingPath_adjacent) simp
  then obtain d where d: "d \<in> set [ArrowUp, ArrowDown, ArrowLeft, ArrowRight]"
    "?p ! (k + 3) = advance (?p ! (k + 2)) d"
    unfolding k3[symmetric] by auto
  define s1 where "s1 = ?s\<lparr>pendingDirection := Some d\<rparr>"
  have r1: "reachable s1"
    unfolding s1_def using assms(2) d(1) by (intro steer) (simp_all add: pathState_def)
  have nxt: "advance (?p ! (k + 2)) (activeDirection s1) = food s1"
    by (simp add: s1_def activeDirection_def fd d(2))
  have onb: "?p ! (k + 3) \<in> set boardCells"
    using fillingPath_onBoard assms(1) len by (auto simp: subset_iff)
  have fresh: "?p ! (k + 3) \<notin> set (take (k + 3) ?p)"
    using assms(1) len by (intro nth_notin_take fillingPath_distinct) simp
  have fs1: "food s1 = ?p ! (k + 3)"
    by (simp add: s1_def fd)
  have ss1: "set (snake s1) = set (take (k + 3) ?p)"
    by (simp add: s1_def pathState_def)
  have t: "tick rnd s1 = Inr (s1\<lparr>pendingDirection := None,
            snake := food s1 # snake s1,
            food := spawnFood rnd (food s1 # snake s1),
            score := score s1 + 1,
            speed := max 60 (speed s1 - 5)\<rparr>)" for rnd
  proof (rule tick_eat)
    show "snake s1 = ?p ! (k + 2) # rev (take (k + 2) ?p)"
      by (simp add: s1_def snk)
    show "\<not> hitWall (advance (?p ! (k + 2)) (activeDirection s1))"
      unfolding nxt fs1 hitWall_iff using onb by blast
    show "advance (?p ! (k + 2)) (activeDirection s1) \<notin> set (snake s1)"
      unfolding nxt fs1 ss1 using fresh by blast
    show "advance (?p ! (k + 2)) (activeDirection s1) = food s1"
      by (rule nxt)
  qed
  have grown: "food s1 # snake s1 = rev (take (k + 4) ?p)"
  proof -
    have "food s1 = ?p ! (k + 3)" "snake s1 = rev (take (k + 3) ?p)"
      by (simp_all add: s1_def fd) (simp add: pathState_def)
    then show ?thesis
      unfolding tk4 by simp
  qed
  have "\<exists>rnd. unitRandom rnd \<and> spawnFood rnd (rev (take (k + 4) ?p)) = food (pathState (Suc k))"
  proof (cases "k + 4 < 400")
    case True
    have "?p ! (k + 4) \<notin> set (take (k + 4) ?p)"
      using True len by (intro nth_notin_take fillingPath_distinct) simp
    moreover have "?p ! (k + 4) \<in> set boardCells"
      using fillingPath_onBoard True len by (auto simp: subset_iff)
    ultimately have "?p ! (k + 4) \<in> set (freeCells (rev (take (k + 4) ?p)))"
      by (simp add: set_freeCells)
    then obtain rnd where "unitRandom rnd" "spawnFood rnd (rev (take (k + 4) ?p)) = ?p ! (k + 4)"
      using spawnFood_any by blast
    then show ?thesis
      using True len by (auto simp: pathState_def eval_nat_numeral)
  next
    case False
    with assms(1) have k: "k + 4 = 400" by simp
    have "boardFull (rev (take (k + 4) ?p))"
      using fillingPath_full by (simp add: k len boardFull_def)
    then have "freeCells (rev (take (k + 4) ?p)) = []"
      by (rule boardFull_freeCells)
    then have "spawnFood 0 (rev (take (k + 4) ?p)) = \<lparr>px = 0, py = 0\<rparr>"
      by (rule spawnFood_fallback)
    then show ?thesis
      using k len unitRandom_zero by (auto simp: pathState_def eval_nat_numeral)
  qed
  then obtain rnd where rnd: "unitRandom rnd"
    "spawnFood rnd (rev (take (k + 4) ?p)) = food (pathState (Suc k))"
    by blast
  have "timer rnd s1 = Inr (pathState (Suc k))"
  proof -
    have "s1\<lparr>pendingDirection := None,
            snake := food s1 # snake s1,
            food := spawnFood rnd (food s1 # snake s1),
            score := score s1 + 1,
            speed := max 60 (speed s1 - 5)\<rparr> = pathState (Suc k)"
      unfolding grown rnd(2)
      by (simp add: s1_def pathState_def eval_nat_numeral)
    then show ?thesis
      by (simp add: timer_def t) (simp add: s1_def pathState_def)
  qed
  with r1 rnd(1) show ?thesis
    by (rule reachable.interval)
qed

lemma reachable_pathState: "k \<le> 397 \<Longrightarrow> reachable (pathState k)"
proof (induction k)
  case 0
  show ?case by (rule reachable_pathState_zero)
next
  case (Suc k)
  then show ?case by (intro pathState_step) simp_all
qed

subsection \<open>A running, grown game\<close>

lemma pathState_five:
  "pathState 5 =
     \<lparr>snake = [\<lparr>px = 15, py = 10\<rparr>, \<lparr>px = 14, py = 10\<rparr>, \<lparr>px = 13, py = 10\<rparr>,
               \<lparr>px = 12, py = 10\<rparr>, \<lparr>px = 11, py = 10\<rparr>, \<lparr>px = 10, py = 10\<rparr>,
               \<lparr>px = 9, py = 10\<rparr>, \<lparr>px = 8, py = 10\<rparr>],
      direction = ArrowRight, food = \<lparr>px = 16, py = 10\<rparr>, speed = 135, score = 5,
      bestScore = Num 0, status = Running, pendingDirection = None\<rparr>"
proof -
  have "take 8 fillingPath = [\<lparr>px = 8, py = 10\<rparr>, \<lparr>px = 9, py = 10\<rparr>, \<lparr>px = 10, py = 10\<rparr>,
      \<lparr>px = 11, py = 10\<rparr>, \<lparr>px = 12, py = 10\<rparr>, \<lparr>px = 13, py = 10\<rparr>,
      \<lparr>px = 14, py = 10\<rparr>, \<lparr>px = 15, py = 10\<rparr>]"
    by code_simp
  moreover have "fillingPath ! 8 = \<lparr>px = 16, py = 10\<rparr>"
    by code_simp
  ultimately show ?thesis
    by (simp add: pathState_def fillingPath_length)
qed

text \<open>
  Claim C8 at a running game that has grown: after five meals along \<open>fillingPath\<close> the
  snake has eight segments and the food lies in front of its head, so the next tick eats and
  the snake has nine; a direction key is buffered and leaves the snake alone. The freshly
  mounted game, with score 0, has three segments.
\<close>

theorem C8_witness:
  "status (pathState 5) = Running \<and> score (pathState 5) = 5 \<and>
   length (snake (pathState 5)) = 8 \<and>
   distinct (snake (pathState 5)) \<and> 3 \<le> length (snake (pathState 5)) \<and>
   (\<exists>s'. timer 0 (pathState 5) = Inr s' \<and>
         length (snake (pathState 5)) \<le> length (snake s') \<and> length (snake s') = 9) \<and>
   snake (handleKeyDown ''ArrowUp'' 0 (pathState 5)) = snake (pathState 5) \<and>
   pendingDirection (handleKeyDown ''ArrowUp'' 0 (pathState 5)) = Some ArrowUp \<and>
   score (mount 0 None) = 0 \<and> length (snake (mount 0 None)) = 3"
proof -
  have r: "reachable (pathState 5)"
    by (rule reachable_pathState) simp
  have r0: "reachable (mount 0 None)"
    by (rule reachable.mounted) (rule unitRandom_zero)
  note c = C8_snake_distinct_and_at_least_three[OF r]
  note c0 = C8_snake_distinct_and_at_least_three[OF r0]
  have st: "status (pathState 5) = Running" "score (pathState 5) = 5"
    "length (snake (pathState 5)) = 8"
    by (simp_all add: pathState_five)
  have sc0: "score (mount 0 None) = 0"
    by (simp add: mount_None)
  from c obtain s' where s': "timer 0 (pathState 5) = Inr s'"
    "length (snake (pathState 5)) \<le> length (snake s')"
    by blast
  have "\<exists>t. timer 0 (pathState 5) = Inr t \<and> length (snake t) = 9"
    by (simp add: pathState_five timer_def tick_def Let_def activeDirection_def advance_def
        hitWall_def hitSelf_def BOARD_SIZE_def ArrowRight_def)
  with s' have grow: "length (snake s') = 9"
    by auto
  have key: "snake (handleKeyDown ''ArrowUp'' 0 (pathState 5)) = snake (pathState 5)"
    using c st(1) by blast
  have buf: "pendingDirection (handleKeyDown ''ArrowUp'' 0 (pathState 5)) = Some ArrowUp"
    by (simp add: pathState_five handleKeyDown_def DIRECTIONS_simps activeDirection_def
        isOpposite_def ArrowRight_def ArrowUp_def)
  from c0 sc0 have len0: "length (snake (mount 0 None)) = 3"
    by blast
  from c st s' grow key buf sc0 len0 show ?thesis
    by blast
qed


end
